theory Spec2Isabelle
  imports Complex_Main "HOL-Library.Word" "HOL-Library.Signed_Division" "HOL-Library.Multiset"
begin

unbundle bit_operations_syntax

section \<open>The generator state and the two streams\<close>

text \<open>
  \<open>rnd_state_t\<close> (randomimpl.py, lines 31-35) is the struct
  \<open>{int32 index, int32 mt[624], int32 has_gauss, double gauss}\<close>. The array is a list here;
  the C side keeps it at 624 entries, and no theorem below depends on what a read returns.
  Doubles are modelled by real numbers and every floating-point operation by the exact
  operation on reals: rounding, infinities and NaN are not represented.
\<close>

record rnd_state =
  index :: "32 word"
  mt :: "32 word list"
  has_gauss :: "32 word"
  gauss :: real

text \<open>
  The two C globals \<open>numba_py_random_state\<close> and \<open>numba_np_random_state\<close>
  (\<open>get_py_state_ptr\<close>, \<open>get_np_state_ptr\<close>), and the name that selects one of them.
\<close>

datatype stream = Py | Np

record globals =
  numba_py_random_state :: rnd_state
  numba_np_random_state :: rnd_state

text \<open>\<open>get_state_ptr\<close> returns a pointer; a load through it is \<open>load\<close>, a store is \<open>store\<close>.\<close>

fun load :: "stream \<Rightarrow> globals \<Rightarrow> rnd_state" where
  "load Py g = numba_py_random_state g"
| "load Np g = numba_np_random_state g"

fun store :: "stream \<Rightarrow> rnd_state \<Rightarrow> globals \<Rightarrow> globals" where
  "store Py st g = g\<lparr>numba_py_random_state := st\<rparr>"
| "store Np st g = g\<lparr>numba_np_random_state := st\<rparr>"

text \<open>
  The C helpers of \<open>_helperlib.c\<close> that the code calls and that are not among the sources are
  parameters of the model: \<open>numba_rnd_shuffle\<close> (the twist, called with the state pointer),
  the word table that \<open>numba_rnd_init\<close> computes from a seed, and \<open>numba_poisson_ptrs\<close>
  (the Poisson sampler for \<open>lam \<ge> 10\<close>, called with the state pointer and \<open>lam\<close>; it may loop).
\<close>

record externs =
  numba_rnd_shuffle :: "rnd_state \<Rightarrow> rnd_state"
  init_words :: "32 word \<Rightarrow> 32 word list"
  numba_poisson_ptrs :: "rnd_state \<Rightarrow> real \<Rightarrow> (64 word \<times> rnd_state) option"

datatype error = ValueError | RuntimeError | ZeroDivisionError

section \<open>Raw words, doubles and integers of a given width\<close>

definition temper :: "32 word \<Rightarrow> 32 word" where
  "temper y0 =
    (let y1 = y0 XOR drop_bit 11 y0;
         y2 = y1 XOR (push_bit 7 y1 AND 0x9d2c5680);
         y3 = y2 XOR (push_bit 15 y2 AND 0xefc60000)
     in y3 XOR drop_bit 18 y3)"

definition get_next_int32 :: "externs \<Rightarrow> stream \<Rightarrow> globals \<Rightarrow> 32 word \<times> globals" where
  "get_next_int32 ext name g =
    (let st = load name g;
         st1 = (if 624 \<le> index st then (numba_rnd_shuffle ext st)\<lparr>index := 0\<rparr> else st);
         idx = index st1;
         y = mt st1 ! unat idx;
         st2 = st1\<lparr>index := idx + 1\<rparr>
     in (temper y, store name st2 g))"

definition get_next_double :: "externs \<Rightarrow> stream \<Rightarrow> globals \<Rightarrow> real \<times> globals" where
  "get_next_double ext name g =
    (let (y1, g1) = get_next_int32 ext name g;
         a = drop_bit 5 y1;
         (y2, g2) = get_next_int32 ext name g1;
         b = drop_bit 6 y2
     in ((real (unat b) + real (unat a) * 67108864) / 9007199254740992, g2))"

definition get_shifted_int :: "externs \<Rightarrow> stream \<Rightarrow> 'a::len word \<Rightarrow> globals \<Rightarrow> 32 word \<times> globals" where
  "get_shifted_int ext name nbits g =
    (let shift = 32 - nbits;
         (y, g1) = get_next_int32 ext name g
     in (drop_bit (unat (ucast shift :: 32 word)) y, g1))"

text \<open>
  \<open>get_next_int\<close>: the source assumes \<open>nbits \<le> 64\<close> (its own comment), and LLVM leaves a
  shift by 32 or more undefined; \<open>drop_bit\<close> returns 0 there. The callers modelled below
  pass \<open>1 \<le> nbits\<close>, and \<open>nbits\<close> below the width of their integer type.
\<close>

definition get_next_int :: "externs \<Rightarrow> stream \<Rightarrow> 'a::len word \<Rightarrow> globals \<Rightarrow> 64 word \<times> globals" where
  "get_next_int ext name nbits g =
    (if nbits \<le> 32 then
       (let (low, g1) = get_shifted_int ext name nbits g
        in (ucast low, g1))
     else
       (let (low, g1) = get_next_int32 ext name g;
            (high, g2) = get_shifted_int ext name (nbits - 32) g1
        in (ucast low + push_bit 32 (ucast high), g2)))"

section \<open>Loops, errors\<close>

text \<open>
  A \<open>while\<close> loop with no bound on its iterations: \<open>body\<close> runs one iteration and
  returns \<open>Inr r\<close> where the source leaves the loop (\<open>break\<close>, \<open>return\<close>) and \<open>Inl s\<close>
  where it goes round again. A loop that never leaves is \<open>None\<close>.
\<close>

partial_function (option) while_loop :: "('s \<Rightarrow> 's + 'r) \<Rightarrow> 's \<Rightarrow> 'r option" where
  "while_loop body s = (case body s of Inl s' \<Rightarrow> while_loop body s' | Inr r \<Rightarrow> Some r)"

text \<open>The same loop cut off after \<open>k\<close> iterations, to count iterations in the theorems.\<close>

fun loop_fuel :: "nat \<Rightarrow> ('s \<Rightarrow> 's + 'r) \<Rightarrow> 's \<Rightarrow> 'r option" where
  "loop_fuel 0 body s = None"
| "loop_fuel (Suc k) body s = (case body s of Inl s' \<Rightarrow> loop_fuel k body s' | Inr r \<Rightarrow> Some r)"

text \<open>
  A call that may loop, may raise and changes the globals returns
  \<open>((error + 'a) \<times> globals) option\<close>; \<open>bindE\<close> runs a second call after a first that returned.
\<close>

definition bindE :: "((error + 'a) \<times> 's) option \<Rightarrow> ('a \<Rightarrow> 's \<Rightarrow> ((error + 'b) \<times> 's) option)
    \<Rightarrow> ((error + 'b) \<times> 's) option" where
  "bindE m k = (case m of None \<Rightarrow> None
                | Some (Inl e, s) \<Rightarrow> Some (Inl e, s)
                | Some (Inr x, s) \<Rightarrow> k x s)"

text \<open>Python's \<open>/\<close> on floats raises ZeroDivisionError on a zero divisor.\<close>

definition truediv :: "real \<Rightarrow> real \<Rightarrow> error + real" where
  "truediv x y = (if y = 0 then Inl ZeroDivisionError else Inr (x / y))"

section \<open>seed, random\<close>

text \<open>
  Modelled from the spec: \<open>numba_rnd_init\<close> (in \<open>_helperlib.c\<close>, not among the sources)
  re-initializes the words from the seed, resets \<open>index\<close> to 624 and clears the gaussian
  cache. The word table itself is the parameter \<open>init_words\<close>.
\<close>

definition numba_rnd_init :: "externs \<Rightarrow> rnd_state \<Rightarrow> 32 word \<Rightarrow> rnd_state" where
  "numba_rnd_init ext st seed_value = st\<lparr>index := 624, mt := init_words ext seed_value, has_gauss := 0\<rparr>"

definition priv_seed_impl :: "externs \<Rightarrow> 32 word \<Rightarrow> stream \<Rightarrow> globals \<Rightarrow> unit \<times> globals" where
  "priv_seed_impl ext seed_value state_ptr g =
    ((), store state_ptr (numba_rnd_init ext (load state_ptr g) seed_value) g)"



text \<open>\<open>random.random\<close> and \<open>np.random.random\<close>: the two \<open>random_impl\<close>.\<close>

definition random_impl_py :: "externs \<Rightarrow> globals \<Rightarrow> real \<times> globals" where
  "random_impl_py ext g = get_next_double ext Py g"

definition random_impl_np :: "externs \<Rightarrow> globals \<Rightarrow> real \<times> globals" where
  "random_impl_np ext g = get_next_double ext Np g"

section \<open>gauss\<close>

text \<open>
  One iteration of the loop of \<open>compute_gauss_pair\<close>: two draws, then the test
  \<open>r2 < 1.0 and r2 != 0.0\<close>.
\<close>

definition compute_gauss_pair_body :: "(globals \<Rightarrow> real \<times> globals) \<Rightarrow> globals
    \<Rightarrow> globals + ((real \<times> real \<times> real) \<times> globals)" where
  "compute_gauss_pair_body random g =
    (let (u1, g1) = random g;
         x1 = 2 * u1 - 1;
         (u2, g2) = random g1;
         x2 = 2 * u2 - 1;
         r2 = x1 * x1 + x2 * x2
     in if r2 < 1 \<and> r2 \<noteq> 0 then Inr ((x1, x2, r2), g2) else Inl g2)"

definition compute_gauss_pair :: "(globals \<Rightarrow> real \<times> globals) \<Rightarrow> globals
    \<Rightarrow> ((real \<times> real) \<times> globals) option" where
  "compute_gauss_pair random g =
    (case while_loop (compute_gauss_pair_body random) g of
       None \<Rightarrow> None
     | Some ((x1, x2, r2), g') \<Rightarrow>
         (let f = sqrt (- 2 * ln r2 / r2) in Some ((f * x1, f * x2), g')))"

definition priv_gauss_impl :: "externs \<Rightarrow> real \<Rightarrow> real \<Rightarrow> stream \<Rightarrow> globals \<Rightarrow> (real \<times> globals) option" where
  "priv_gauss_impl ext mu sigma state g =
    (let random = (case state of Py \<Rightarrow> random_impl_py ext | Np \<Rightarrow> random_impl_np ext)
     in if has_gauss (load state g) \<noteq> 0 then
          (let ret = gauss (load state g);
               g1 = store state ((load state g)\<lparr>has_gauss := 0\<rparr>) g
           in Some (mu + sigma * ret, g1))
        else
          (case compute_gauss_pair random g of
             None \<Rightarrow> None
           | Some ((first, second), g1) \<Rightarrow>
               (let g2 = store state ((load state g1)\<lparr>gauss := first\<rparr>) g1;
                    ret = second;
                    g3 = store state ((load state g2)\<lparr>has_gauss := 1\<rparr>) g2
                in Some (mu + sigma * ret, g3))))"




section \<open>randrange, randint, getrandbits\<close>


text \<open>
  LLVM's \<open>sdiv\<close> truncates towards zero. It is undefined for a zero divisor and where the
  quotient overflows (the least integer divided by -1); the model's value there is that
  of the division on \<open>int\<close>, cut to the width, and the theorems leave those inputs out.
\<close>

definition sdiv_word :: "'a::len word \<Rightarrow> 'a word \<Rightarrow> 'a word" where
  "sdiv_word a b = word_of_int (sint a sdiv sint b)"

text \<open>
  \<open>llvm.ctlz\<close>, the number of leading zero bits, counted from the most significant bit
  down. The source calls it with \<open>is_zero_undef\<close> set; it reaches the call with \<open>n > 0\<close> only.
\<close>

definition ctlz :: "'a::len word \<Rightarrow> 'a word" where
  "ctlz w = of_nat (length (takeWhile (\<lambda>i. \<not> bit w i) (rev [0..<LENGTH('a)])))"

definition randrange_body :: "externs \<Rightarrow> stream \<Rightarrow> 'a::len word \<Rightarrow> 32 word \<Rightarrow> globals
    \<Rightarrow> globals + ('a word \<times> globals)" where
  "randrange_body ext state n nbits g =
    (let (r64, g1) = get_next_int ext state nbits g;
         r = (ucast r64 :: 'a word);
         too_large = word_sle n r
     in if too_large then Inl g1 else Inr (r, g1))"

definition priv_randrange_impl :: "externs \<Rightarrow> 'a::len word \<Rightarrow> 'a word \<Rightarrow> 'a word \<Rightarrow> stream \<Rightarrow> globals
    \<Rightarrow> ((error + 'a word) \<times> globals) option" where
  "priv_randrange_impl ext start stop step state g =
    (let n0 = stop - start;
         n1 = (if word_sless step 0 then sdiv_word (n0 + step + 1) step else n0);
         n = (if word_sless 1 step then sdiv_word (n1 + step - 1) step else n1)
     in if word_sle n 0 then Some (Inl RuntimeError, g)
        else
          (let nbits = (word_of_nat LENGTH('a) :: 32 word) - ucast (ctlz n)
           in (case while_loop (randrange_body ext state n nbits) g of
                 None \<Rightarrow> None
               | Some (r, g') \<Rightarrow> Some (Inr (start + r * step), g'))))"







section \<open>uniform, triangular\<close>










section \<open>gammavariate\<close>

definition LOG4 :: real where
  "LOG4 = ln 4"

definition SG_MAGICCONST :: real where
  "SG_MAGICCONST = 1 + ln 4.5"

text \<open>The loop for \<open>alpha > 1\<close> (Cheng); \<open>continue\<close> and the end of the body both go round again.\<close>

definition gamma_cheng_body :: "(globals \<Rightarrow> real \<times> globals) \<Rightarrow> real \<Rightarrow> real \<Rightarrow> real \<Rightarrow> real
    \<Rightarrow> globals \<Rightarrow> globals + (real \<times> globals)" where
  "gamma_cheng_body random alpha ainv bbb ccc g =
    (let (u1, g1) = random g
     in if \<not> (1 / 10000000 < u1 \<and> u1 < 9999999 / 10000000) then Inl g1
        else
          (let (u, g2) = random g1;
               u2 = 1 - u;
               v = ln (u1 / (1 - u1)) / ainv;
               x = alpha * exp v;
               z = u1 * u1 * u2;
               r = bbb + ccc * v - x
           in if r + SG_MAGICCONST - 4.5 * z \<ge> 0 \<or> r \<ge> ln z then Inr (x, g2) else Inl g2))"

text \<open>The loop for \<open>alpha == 1\<close>: \<open>u\<close> is drawn once before the loop and again while \<open>u <= 1e-7\<close>.\<close>

definition gamma_exp_body :: "(globals \<Rightarrow> real \<times> globals) \<Rightarrow> real \<times> globals
    \<Rightarrow> (real \<times> globals) + (real \<times> globals)" where
  "gamma_exp_body random s =
    (let (u, g) = s
     in if u \<le> 1 / 10000000 then Inl (random g) else Inr (u, g))"

text \<open>The loop for \<open>0 < alpha < 1\<close> (algorithm GS).\<close>

definition gamma_gs_body :: "(globals \<Rightarrow> real \<times> globals) \<Rightarrow> real \<Rightarrow> globals \<Rightarrow> globals + (real \<times> globals)" where
  "gamma_gs_body random alpha g =
    (let (u, g1) = random g;
         b = (exp 1 + alpha) / exp 1;
         p = b * u;
         x = (if p \<le> 1 then p powr (1 / alpha) else - ln ((b - p) / alpha));
         (u1, g2) = random g1
     in if p > 1 then (if u1 \<le> x powr (alpha - 1) then Inr (x, g2) else Inl g2)
        else if u1 \<le> exp (- x) then Inr (x, g2)
        else Inl g2)"

definition priv_gammavariate_impl :: "(globals \<Rightarrow> real \<times> globals) \<Rightarrow> real \<Rightarrow> real \<Rightarrow> globals
    \<Rightarrow> ((error + real) \<times> globals) option" where
  "priv_gammavariate_impl random alpha beta g =
    (if alpha \<le> 0 \<or> beta \<le> 0 then Some (Inl ValueError, g)
     else if alpha > 1 then
       (let ainv = sqrt (2 * alpha - 1);
            bbb = alpha - LOG4;
            ccc = alpha + ainv
        in (case while_loop (gamma_cheng_body random alpha ainv bbb ccc) g of
              None \<Rightarrow> None
            | Some (x, g') \<Rightarrow> Some (Inr (x * beta), g')))
     else if alpha = 1 then
       (case while_loop (gamma_exp_body random) (random g) of
          None \<Rightarrow> None
        | Some (u, g') \<Rightarrow> Some (Inr (- ln u * beta), g'))
     else
       (case while_loop (gamma_gs_body random alpha) g of
          None \<Rightarrow> None
        | Some (x, g') \<Rightarrow> Some (Inr (x * beta), g')))"

definition gammavariate_impl_py :: "externs \<Rightarrow> real \<Rightarrow> real \<Rightarrow> globals \<Rightarrow> ((error + real) \<times> globals) option" where
  "gammavariate_impl_py ext alpha beta g = priv_gammavariate_impl (random_impl_py ext) alpha beta g"

text \<open>
  \<open>np.random.standard_gamma(shape)\<close>, \<open>np.random.gamma(shape)\<close> and
  \<open>np.random.gamma(shape, scale)\<close>: a missing scale is 1.0.
\<close>

definition gammavariate_impl_np :: "externs \<Rightarrow> real \<Rightarrow> real option \<Rightarrow> globals
    \<Rightarrow> ((error + real) \<times> globals) option" where
  "gammavariate_impl_np ext alpha beta_arg g =
    (let beta = (case beta_arg of None \<Rightarrow> 1 | Some b \<Rightarrow> b)
     in priv_gammavariate_impl (random_impl_np ext) alpha beta g)"

section \<open>poisson, negative_binomial\<close>

definition poisson_body :: "(globals \<Rightarrow> real \<times> globals) \<Rightarrow> real \<Rightarrow> 64 word \<times> real \<times> globals
    \<Rightarrow> (64 word \<times> real \<times> globals) + (64 word \<times> globals)" where
  "poisson_body random enlam s =
    (let (X, prod, g) = s;
         (U, g1) = random g;
         prod' = prod * U
     in if prod' \<le> enlam then Inr (X, g1) else Inl (X + 1, prod', g1))"

text \<open>The inner function \<open>poisson_impl(lam)\<close>, for small \<open>lam\<close>.\<close>

definition poisson_small :: "externs \<Rightarrow> real \<Rightarrow> globals \<Rightarrow> ((error + 64 word) \<times> globals) option" where
  "poisson_small ext lam g =
    (if lam < 0 then Some (Inl ValueError, g)
     else if lam = 0 then Some (Inr 0, g)
     else
       (let enlam = exp (- lam)
        in (case while_loop (poisson_body (random_impl_np ext) enlam) (0, 1, g) of
              None \<Rightarrow> None
            | Some (X, g') \<Rightarrow> Some (Inr X, g'))))"

text \<open>
  \<open>np.random.poisson\<close> with no argument (\<open>lam = 1.0\<close>) or one. With one argument and
  \<open>lam >= 10.0\<close> the result is that of \<open>numba_poisson_ptrs\<close> on the np state.
\<close>

definition poisson_impl :: "externs \<Rightarrow> real option \<Rightarrow> globals \<Rightarrow> ((error + 64 word) \<times> globals) option" where
  "poisson_impl ext lam_arg g =
    (case lam_arg of
       Some lam \<Rightarrow>
         if lam \<ge> 10 then
           (case numba_poisson_ptrs ext (load Np g) lam of
              None \<Rightarrow> None
            | Some (ret, st') \<Rightarrow> Some (Inr ret, store Np st' g))
         else poisson_small ext lam g
     | None \<Rightarrow> poisson_small ext 1 g)"

text \<open>
  \<open>negative_binomial_impl(n, p)\<close>, with \<open>n\<close> an int64 and \<open>p\<close> a float; \<open>n\<close> is converted to
  a float for \<open>np.random.gamma\<close>.
\<close>

definition negative_binomial_impl :: "externs \<Rightarrow> 64 word \<Rightarrow> real \<Rightarrow> globals
    \<Rightarrow> ((error + 64 word) \<times> globals) option" where
  "negative_binomial_impl ext n p g =
    (if word_sle n 0 then Some (Inl ValueError, g)
     else if p < 0 \<or> p > 1 then Some (Inl ValueError, g)
     else
       (case truediv (1 - p) p of
          Inl e \<Rightarrow> Some (Inl e, g)
        | Inr scale \<Rightarrow>
            bindE (gammavariate_impl_np ext (real_of_int (sint n)) (Some scale) g)
              (\<lambda>Y g1. poisson_impl ext (Some Y) g1)))"

section \<open>The other distributions\<close>
































section \<open>shuffle\<close>



section \<open>The registry\<close>

text \<open>
  The functions registered with \<open>@implement\<close>, as a datatype of calls: one constructor for
  each registered name and arity (names registered to the same implementation with the same
  arguments share one). Integer arguments and results are 64-bit; \<open>stream_of\<close> is the state
  (\<open>"py"\<close> or \<open>"np"\<close>) the implementation passes to \<open>get_state_ptr\<close>.
\<close>

datatype 'a val = NoneVal | FloatVal real | IntVal "64 word" | ArrayVal "'a list"



text \<open>
  The outcome of a call: no return (\<open>None\<close>), or an error or a value, with the globals it
  leaves. The four \<open>ret\<close> functions wrap the result types of the implementations.
\<close>

type_synonym 'a outcome = "((error + 'a val) \<times> globals) option"

definition ret :: "('b \<Rightarrow> 'a val) \<Rightarrow> 'b \<times> globals \<Rightarrow> 'a outcome" where
  "ret V x = Some (Inr (V (fst x)), snd x)"







text \<open>
  Not from the source: a function leaves the stream \<open>name\<close> alone when putting any state
  \<open>st\<close> in that stream before the call gives the same result as putting it there after
  the call. The function then neither reads nor writes that stream.
\<close>

definition frame_t :: "stream \<Rightarrow> (globals \<Rightarrow> 'a \<times> globals) \<Rightarrow> bool" where
  "frame_t name f = (\<forall>st g. f (store name st g) = apsnd (store name st) (f g))"




section \<open>The bit length of a number\<close>

text \<open>
  Not from the source: the number of bits needed to write \<open>m\<close> in binary (0 for 0), to
  state which width \<open>_randrange_impl\<close> draws.
\<close>

fun bits_needed :: "nat \<Rightarrow> nat" where
  "bits_needed m = (if m = 0 then 0 else Suc (bits_needed (m div 2)))"

declare bits_needed.simps [simp del]

section \<open>A concrete state for the examples\<close>

text \<open>
  A state whose 624 words are all \<open>0x4c019032\<close>, which tempers to \<open>0x40000000\<close>, and
  helpers that leave the words as they are: every draw from it is the same word.
\<close>

definition sample_state :: rnd_state where
  "sample_state = \<lparr>index = 0, mt = replicate 624 0x4c019032, has_gauss = 0, gauss = 0\<rparr>"

definition sample_globals :: globals where
  "sample_globals = \<lparr>numba_py_random_state = sample_state, numba_np_random_state = sample_state\<rparr>"

definition sample_externs :: externs where
  "sample_externs = \<lparr>numba_rnd_shuffle = (\<lambda>st. st), init_words = (\<lambda>seed. replicate 624 seed),
     numba_poisson_ptrs = (\<lambda>st lam. Some (0, st))\<rparr>"

section \<open>Properties\<close>

lemma drop_bit_5_bound: "unat (drop_bit 5 (y :: 32 word)) < 2 ^ 27"
proof -
  have "unat (drop_bit 5 y) = unat y div 2 ^ 5"
    by (metis drop_bit_eq_div unat_drop_bit_eq)
  moreover have "unat y < 2 ^ 32"
    using unsigned_less [of y] by simp
  ultimately show ?thesis by (simp add: less_mult_imp_div_less)
qed

lemma drop_bit_6_bound: "unat (drop_bit 6 (y :: 32 word)) < 2 ^ 26"
proof -
  have "unat (drop_bit 6 y) = unat y div 2 ^ 6"
    by (metis drop_bit_eq_div unat_drop_bit_eq)
  moreover have "unat y < 2 ^ 32"
    using unsigned_less [of y] by simp
  ultimately show ?thesis by (simp add: less_mult_imp_div_less)
qed

subsection \<open>Loads and stores\<close>

lemma load_store: "load name (store name st g) = st"
  by (cases name) simp_all


lemma store_store: "store name st (store name st' g) = store name st g"
  by (cases name) simp_all

subsection \<open>Unbounded loops and their iterations\<close>


lemma while_loop_fuel:
  assumes "while_loop body s = Some r"
  shows "\<exists>k. loop_fuel k body s = Some r"
  apply (rule while_loop.raw_induct [where P = "\<lambda>b s r. \<exists>k. loop_fuel k b s = Some r", OF _ assms])
  subgoal premises p for wl b s r
  proof (cases "b s")
    case (Inl s')
    with p(2) have "wl b s' = Some r" by simp
    then obtain k where "loop_fuel k b s' = Some r" using p(1) by blast
    with Inl have "loop_fuel (Suc k) b s = Some r" by simp
    then show ?thesis by blast
  next
    case (Inr r')
    with p(2) have "loop_fuel (Suc 0) b s = Some r" by simp
    then show ?thesis by blast
  qed
  done

lemma while_loop_Inr: "body s = Inr r \<Longrightarrow> while_loop body s = Some r"
  by (subst while_loop.simps) simp

lemma while_loop_Inl: "body s = Inl s' \<Longrightarrow> while_loop body s = while_loop body s'"
  by (subst while_loop.simps) simp

subsection \<open>\<open>next_f64\<close> lies in the unit interval\<close>

lemma get_next_double_eq:
  "get_next_double ext name g =
    (let a = drop_bit 5 (fst (get_next_int32 ext name g));
         g1 = snd (get_next_int32 ext name g);
         b = drop_bit 6 (fst (get_next_int32 ext name g1));
         g2 = snd (get_next_int32 ext name g1)
     in ((real (unat a) * 2 ^ 26 + real (unat b)) / 2 ^ 53, g2))"
  by (simp add: get_next_double_def Let_def split_beta)

lemma next_double_range:
  fixes y1 y2 :: "32 word"
  defines "a \<equiv> unat (drop_bit 5 y1)" and "b \<equiv> unat (drop_bit 6 y2)"
  shows "0 \<le> (real a * 2 ^ 26 + real b) / 2 ^ 53" and "(real a * 2 ^ 26 + real b) / 2 ^ 53 < 1"
    and "a * 2 ^ 26 + b < 2 ^ 53"
proof -
  have a: "a < 2 ^ 27" unfolding a_def by (rule drop_bit_5_bound)
  have b: "b < 2 ^ 26" unfolding b_def by (rule drop_bit_6_bound)
  from a have "a + 1 \<le> 2 ^ 27" by simp
  then have "(a + 1) * 2 ^ 26 \<le> 2 ^ 27 * 2 ^ 26" by (rule mult_le_mono1)
  with b show n: "a * 2 ^ 26 + b < 2 ^ 53" by simp
  then have "real (a * 2 ^ 26 + b) < real (2 ^ 53)" by (rule of_nat_less_iff [THEN iffD2])
  then show "(real a * 2 ^ 26 + real b) / 2 ^ 53 < 1" by simp
  show "0 \<le> (real a * 2 ^ 26 + real b) / 2 ^ 53" by simp
qed

text \<open>
  C6. For every state, \<open>get_next_double\<close> returns \<open>(a * 2^26 + b) / 2^53\<close>, where \<open>a\<close> is
  the next tempered word shifted right by 5 and \<open>b\<close> the following one shifted right by 6.
  The numerator is a natural number below \<open>2^53\<close>, so the double arithmetic of the source is
  exact, and the result is at least 0 and less than 1.
\<close>

theorem next_f64_unit_interval:
  fixes ext name g
  defines "w1 \<equiv> get_next_int32 ext name g"
  defines "w2 \<equiv> get_next_int32 ext name (snd w1)"
  defines "a \<equiv> unat (drop_bit 5 (fst w1))"
  defines "b \<equiv> unat (drop_bit 6 (fst w2))"
  shows "get_next_double ext name g = ((real a * 2 ^ 26 + real b) / 2 ^ 53, snd w2)
    \<and> a * 2 ^ 26 + b < 2 ^ 53
    \<and> 0 \<le> fst (get_next_double ext name g) \<and> fst (get_next_double ext name g) < 1"
proof -
  have eq: "get_next_double ext name g = ((real a * 2 ^ 26 + real b) / 2 ^ 53, snd w2)"
    unfolding a_def b_def w2_def w1_def by (simp add: get_next_double_eq Let_def)
  show ?thesis
    unfolding eq fst_conv a_def b_def using next_double_range [of "fst w1" "fst w2"] by simp
qed

subsection \<open>A draw depends on the state of its stream only\<close>



subsection \<open>poisson at zero\<close>

text \<open>
  C10. \<open>np.random.poisson\<close> called with \<open>lam = 0.0\<close> returns 0 and leaves the globals, and
  so the index, the words and the gaussian cache of the stream, as they were: no draw is made.
\<close>

theorem poisson_zero_no_draw: "poisson_impl ext (Some 0) g = Some (Inr 0, g)"
  by (simp add: poisson_impl_def poisson_small_def)

subsection \<open>gammavariate: the domain error\<close>

text \<open>
  C5. \<open>gammavariate(alpha, beta)\<close>, on either stream (\<open>random\<close> is the stream's
  \<open>random()\<close>), raises if and only if \<open>alpha \<le> 0\<close> or \<open>beta \<le> 0\<close>; the error is ValueError
  and the globals it leaves are those it was called with.
\<close>

theorem gammavariate_domain_error:
  "(alpha \<le> 0 \<or> beta \<le> 0 \<longrightarrow> priv_gammavariate_impl random alpha beta g = Some (Inl ValueError, g))
   \<and> ((\<exists>e g'. priv_gammavariate_impl random alpha beta g = Some (Inl e, g')) \<longleftrightarrow> alpha \<le> 0 \<or> beta \<le> 0)"
  by (auto simp: priv_gammavariate_impl_def Let_def split: option.splits if_splits)

theorem gammavariate_domain_error_witness:
  "gammavariate_impl_py sample_externs 0 1 sample_globals = Some (Inl ValueError, sample_globals)
   \<and> (\<exists>e g'. gammavariate_impl_py sample_externs 0 1 sample_globals = Some (Inl e, g'))"
  using gammavariate_domain_error [of 0 1 "random_impl_py sample_externs" sample_globals]
  by (simp add: gammavariate_impl_py_def)

subsection \<open>triangular on the two streams\<close>






subsection \<open>Loops that draw again until a test passes\<close>

lemma retry_loop_first:
  assumes body: "\<And>s. body s = (if acc s then Inr (out s) else Inl (nxt s))"
    and rej: "\<forall>j<k. \<not> acc ((nxt ^^ j) s)"
    and acc: "acc ((nxt ^^ k) s)"
  shows "while_loop body s = Some (out ((nxt ^^ k) s))"
  using rej acc
proof (induction k arbitrary: s)
  case 0
  then show ?case by (simp add: while_loop_Inr body)
next
  case (Suc k)
  from Suc.prems(1) have "\<not> acc s" by force
  then have "while_loop body s = while_loop body (nxt s)"
    by (simp add: while_loop_Inl body)
  moreover have "while_loop body (nxt s) = Some (out ((nxt ^^ k) (nxt s)))"
  proof (rule Suc.IH)
    show "\<forall>j<k. \<not> acc ((nxt ^^ j) (nxt s))"
      using Suc.prems(1) by (metis Suc_less_eq funpow_Suc_right o_apply)
    show "acc ((nxt ^^ k) (nxt s))"
      using Suc.prems(2) by (simp add: funpow_swap1)
  qed
  ultimately show ?case by (simp add: funpow_swap1)
qed

lemma retry_fuel_never:
  assumes body: "\<And>s. body s = (if acc s then Inr (out s) else Inl (nxt s))"
    and rej: "\<forall>j. \<not> acc ((nxt ^^ j) s)"
  shows "loop_fuel k body s = None"
  using rej
proof (induction k arbitrary: s)
  case 0
  show ?case by simp
next
  case (Suc k)
  from Suc.prems have "\<not> acc ((nxt ^^ 0) s)" by blast
  then have n: "\<not> acc s" by simp
  have "\<forall>j. \<not> acc ((nxt ^^ j) (nxt s))"
    using Suc.prems by (metis funpow_Suc_right o_apply)
  then have "loop_fuel k body (nxt s) = None" by (rule Suc.IH)
  moreover from n have "body s = Inl (nxt s)" by (simp add: body)
  ultimately show ?case by simp
qed

lemma retry_loop_never:
  assumes body: "\<And>s. body s = (if acc s then Inr (out s) else Inl (nxt s))"
    and rej: "\<forall>j. \<not> acc ((nxt ^^ j) s)"
  shows "while_loop body s = None"
proof (cases "while_loop body s")
  case None
  then show ?thesis .
next
  case (Some r)
  from while_loop_fuel [OF Some] obtain k where "loop_fuel k body s = Some r" ..
  with retry_fuel_never [of body acc out nxt s k, OF body rej] show ?thesis by simp
qed

subsection \<open>Draws from the concrete state\<close>

lemma sample_next_int32:
  assumes "mt (load name g) = replicate 624 0x4c019032" and "index (load name g) < 624"
  shows "get_next_int32 sample_externs name g
    = (0x40000000, store name ((load name g)\<lparr>index := index (load name g) + 1\<rparr>) g)"
proof -
  from assms(2) have "unat (index (load name g)) < 624"
    by (simp add: word_less_nat_alt)
  with assms show ?thesis
    by (simp add: get_next_int32_def Let_def sample_externs_def temper_def linorder_not_le [symmetric])
qed

lemma sample_next_double:
  assumes "mt (load name g) = replicate 624 0x4c019032" and "index (load name g) < 623"
  shows "get_next_double sample_externs name g
    = (134217729 / 536870912, store name ((load name g)\<lparr>index := index (load name g) + 1 + 1\<rparr>) g)"
proof -
  from assms(2) have a: "index (load name g) < 624" and b: "index (load name g) + 1 < 624"
    by (simp_all add: word_less_nat_alt unat_word_ariths) 
  show ?thesis
    using assms(1) a b
    by (simp add: get_next_double_def sample_next_int32 load_store store_store)
qed

lemma sample_random_py:
  assumes "mt (load Py g) = replicate 624 0x4c019032" and "index (load Py g) < 623"
  shows "random_impl_py sample_externs g
    = (134217729 / 536870912, store Py ((load Py g)\<lparr>index := index (load Py g) + 1 + 1\<rparr>) g)"
  using assms by (simp add: random_impl_py_def sample_next_double)

subsection \<open>gauss\<close>

lemma compute_gauss_pair_body_retry:
  "compute_gauss_pair_body random g =
    (if (\<lambda>g. let x1 = 2 * fst (random g) - 1; x2 = 2 * fst (random (snd (random g))) - 1; r2 = x1 * x1 + x2 * x2
              in 0 < r2 \<and> r2 < 1) g
     then Inr ((\<lambda>g. ((2 * fst (random g) - 1, 2 * fst (random (snd (random g))) - 1,
            (2 * fst (random g) - 1) * (2 * fst (random g) - 1)
            + (2 * fst (random (snd (random g))) - 1) * (2 * fst (random (snd (random g))) - 1)),
          snd (random (snd (random g))))) g)
     else Inl ((\<lambda>g. snd (random (snd (random g)))) g))"
proof -
  have "0 \<le> x * x + y * y" for x y :: real by simp
  then have "x * x + y * y \<noteq> 0 \<longleftrightarrow> 0 < x * x + y * y" for x y :: real
    by (simp add: less_le)
  then show ?thesis
    by (simp add: compute_gauss_pair_body_def Let_def split_beta conj_commute)
qed

lemma store_twice_gauss:
  "store state ((load state (store state (st\<lparr>gauss := c\<rparr>) g))\<lparr>has_gauss := 1\<rparr>) (store state (st\<lparr>gauss := c\<rparr>) g)
    = store state (st\<lparr>gauss := c, has_gauss := 1\<rparr>) g"
  by (simp add: load_store store_store)



lemma priv_gauss_impl_sets_flag:
  assumes "has_gauss (load state g) = 0" and "priv_gauss_impl ext mu sigma state g = Some (v1, g1)"
  shows "has_gauss (load state g1) = 1"
  using assms
  by (auto simp: priv_gauss_impl_def Let_def load_store split: option.splits)

lemma priv_gauss_impl_cached:
  assumes "has_gauss (load state g) \<noteq> 0"
  shows "priv_gauss_impl ext mu sigma state g =
    Some (mu + sigma * gauss (load state g), store state ((load state g)\<lparr>has_gauss := 0\<rparr>) g)"
  using assms by (simp add: priv_gauss_impl_def Let_def)

text \<open>
  C3. After a fresh seed of a stream, if a first gaussian call returns, a second one returns
  \<open>mu' + sigma' * cached_gaussian\<close> and changes nothing but the flag, which it clears: the
  index and the words are those the first call left, so it draws nothing. When the first
  pair is accepted (no rejection), the first call leaves the index and words of the state
  after exactly two draws of \<open>random()\<close>, with the cache filled and the flag set.
\<close>

theorem gauss_cache_round_trip:
  fixes ext state seed_value gs mu sigma mu' sigma'
  defines "g \<equiv> snd (priv_seed_impl ext seed_value state gs)"
  defines "random \<equiv> (case state of Py \<Rightarrow> random_impl_py ext | Np \<Rightarrow> random_impl_np ext)"
  defines "x1 \<equiv> 2 * fst (random g) - 1"
  defines "x2 \<equiv> 2 * fst (random (snd (random g))) - 1"
  defines "g_two_draws \<equiv> snd (random (snd (random g)))"
  shows "(\<forall>v1 g1. priv_gauss_impl ext mu sigma state g = Some (v1, g1) \<longrightarrow>
            (\<exists>g2. priv_gauss_impl ext mu' sigma' state g1 = Some (mu' + sigma' * gauss (load state g1), g2)
               \<and> g2 = store state ((load state g1)\<lparr>has_gauss := 0\<rparr>) g1
               \<and> index (load state g2) = index (load state g1)
               \<and> mt (load state g2) = mt (load state g1)
               \<and> has_gauss (load state g1) = 1 \<and> has_gauss (load state g2) = 0))
    \<and> (0 < x1 * x1 + x2 * x2 \<and> x1 * x1 + x2 * x2 < 1 \<longrightarrow>
          (\<exists>v1 c. priv_gauss_impl ext mu sigma state g =
              Some (v1, store state ((load state g_two_draws)\<lparr>gauss := c, has_gauss := 1\<rparr>) g_two_draws)))"
proof (intro conjI allI impI)
  have h: "has_gauss (load state g) = 0"
    by (simp add: g_def priv_seed_impl_def numba_rnd_init_def load_store)
  {
    fix v1 g1
    assume a: "priv_gauss_impl ext mu sigma state g = Some (v1, g1)"
    have f: "has_gauss (load state g1) = 1"
      using h a by (rule priv_gauss_impl_sets_flag)
    then have "has_gauss (load state g1) \<noteq> 0" by simp
    from priv_gauss_impl_cached [OF this, of ext mu' sigma'] f
    show "\<exists>g2. priv_gauss_impl ext mu' sigma' state g1 = Some (mu' + sigma' * gauss (load state g1), g2)
               \<and> g2 = store state ((load state g1)\<lparr>has_gauss := 0\<rparr>) g1
               \<and> index (load state g2) = index (load state g1)
               \<and> mt (load state g2) = mt (load state g1)
               \<and> has_gauss (load state g1) = 1 \<and> has_gauss (load state g2) = 0"
      by (simp add: load_store)
  }
  assume "0 < x1 * x1 + x2 * x2 \<and> x1 * x1 + x2 * x2 < 1"
  then have "compute_gauss_pair_body random g = Inr ((x1, x2, x1 * x1 + x2 * x2), g_two_draws)"
    unfolding compute_gauss_pair_body_retry x1_def x2_def g_two_draws_def by (simp add: Let_def)
  then have "while_loop (compute_gauss_pair_body random) g = Some ((x1, x2, x1 * x1 + x2 * x2), g_two_draws)"
    by (rule while_loop_Inr)
  with h have "priv_gauss_impl ext mu sigma state g =
      Some (mu + sigma * (sqrt (- 2 * ln (x1 * x1 + x2 * x2) / (x1 * x1 + x2 * x2)) * x2),
        store state ((load state g_two_draws)
          \<lparr>gauss := sqrt (- 2 * ln (x1 * x1 + x2 * x2) / (x1 * x1 + x2 * x2)) * x1, has_gauss := 1\<rparr>)
          g_two_draws)"
    unfolding priv_gauss_impl_def random_def [symmetric]
    by (simp add: compute_gauss_pair_def Let_def load_store store_store)
  then show "\<exists>v1 c. priv_gauss_impl ext mu sigma state g =
      Some (v1, store state ((load state g_two_draws)\<lparr>gauss := c, has_gauss := 1\<rparr>) g_two_draws)"
    by blast
qed

lemma sample_seeded:
  "snd (priv_seed_impl sample_externs 0x4c019032 Py sample_globals)
    = store Py (sample_state\<lparr>index := 624\<rparr>) sample_globals"
  by (simp add: priv_seed_impl_def numba_rnd_init_def sample_externs_def sample_globals_def sample_state_def)

lemma sample_seeded_random:
  "random_impl_py sample_externs (store Py (sample_state\<lparr>index := 624\<rparr>) sample_globals)
    = (134217729 / 536870912, store Py (sample_state\<lparr>index := 2\<rparr>) sample_globals)"
proof -
  have 1: "get_next_int32 sample_externs Py (store Py (sample_state\<lparr>index := 624\<rparr>) sample_globals)
    = (0x40000000, store Py (sample_state\<lparr>index := 1\<rparr>) sample_globals)"
    by (simp add: get_next_int32_def Let_def sample_externs_def sample_globals_def sample_state_def temper_def)
  have 2: "get_next_int32 sample_externs Py (store Py (sample_state\<lparr>index := 1\<rparr>) sample_globals)
    = (0x40000000, store Py (sample_state\<lparr>index := 2\<rparr>) sample_globals)"
    by (subst sample_next_int32) (simp_all add: sample_globals_def sample_state_def word_less_nat_alt)
  show ?thesis
    by (simp add: random_impl_py_def get_next_double_def 1 2 del: store.simps)
qed

lemma sample_random_2:
  "random_impl_py sample_externs (store Py (sample_state\<lparr>index := 2\<rparr>) sample_globals)
      = (134217729 / 536870912, store Py (sample_state\<lparr>index := 4\<rparr>) sample_globals)"
  by (subst sample_random_py) (simp_all add: sample_globals_def sample_state_def)

theorem gauss_cache_round_trip_witness:
  "\<exists>v1 g1. priv_gauss_impl sample_externs 0 1 Py
        (snd (priv_seed_impl sample_externs 0x4c019032 Py sample_globals)) = Some (v1, g1)
     \<and> index (load Py g1) = 4 \<and> has_gauss (load Py g1) = 1
     \<and> priv_gauss_impl sample_externs 5 2 Py g1 =
          Some (5 + 2 * gauss (load Py g1), store Py ((load Py g1)\<lparr>has_gauss := 0\<rparr>) g1)"
proof -
  note t = gauss_cache_round_trip [where ext = sample_externs and state = Py
      and seed_value = "0x4c019032" and gs = sample_globals and mu = 0 and sigma = 1
      and mu' = 5 and sigma' = 2]
  let ?g = "snd (priv_seed_impl sample_externs 0x4c019032 Py sample_globals)"
  let ?g2 = "store Py (sample_state\<lparr>index := 4\<rparr>) sample_globals"
  from t [THEN conjunct2]
  obtain v1 c where first: "priv_gauss_impl sample_externs 0 1 Py ?g
      = Some (v1, store Py ((load Py ?g2)\<lparr>gauss := c, has_gauss := 1\<rparr>) ?g2)"
    by (auto simp add: sample_seeded sample_seeded_random sample_random_2 simp del: store.simps load.simps)
  let ?g1 = "store Py ((load Py ?g2)\<lparr>gauss := c, has_gauss := 1\<rparr>) ?g2"
  from t [THEN conjunct1, rule_format, OF first]
  have "priv_gauss_impl sample_externs 5 2 Py ?g1 =
          Some (5 + 2 * gauss (load Py ?g1), store Py ((load Py ?g1)\<lparr>has_gauss := 0\<rparr>) ?g1)"
    by blast
  moreover have "index (load Py ?g1) = 4 \<and> has_gauss (load Py ?g1) = 1"
    by (simp add: load_store)
  ultimately show ?thesis using first by blast
qed

subsection \<open>Bit length and leading zeros\<close>

lemma bits_needed_upper: "m < 2 ^ bits_needed m"
proof (induction m rule: bits_needed.induct)
  case (1 m)
  show ?case
  proof (cases "m = 0")
    case True
    then show ?thesis by (simp add: bits_needed.simps)
  next
    case False
    with 1 have "m div 2 < 2 ^ bits_needed (m div 2)" by simp
    then have "m < 2 * 2 ^ bits_needed (m div 2)" by linarith
    with False show ?thesis by (subst bits_needed.simps) simp
  qed
qed

lemma bits_needed_lower: "m \<noteq> 0 \<Longrightarrow> 2 ^ (bits_needed m - 1) \<le> m"
proof (induction m rule: bits_needed.induct)
  case (1 m)
  show ?case
  proof (cases "m div 2 = 0")
    case True
    with 1(2) have "m = 1" by linarith
    then show ?thesis by (simp add: bits_needed.simps)
  next
    case False
    with 1 have "2 ^ (bits_needed (m div 2) - 1) \<le> m div 2" by simp
    moreover have "bits_needed (m div 2) \<noteq> 0" using False by (subst bits_needed.simps) simp
    ultimately have "2 ^ bits_needed (m div 2) \<le> 2 * (m div 2)"
      by (cases "bits_needed (m div 2)") simp_all
    then have "2 ^ bits_needed (m div 2) \<le> m" by linarith
    with 1(2) show ?thesis by (subst bits_needed.simps) simp
  qed
qed

lemma bits_needed_le: "m < 2 ^ k \<Longrightarrow> bits_needed m \<le> k"
proof (rule ccontr)
  assume a: "m < 2 ^ k" and "\<not> bits_needed m \<le> k"
  have nz: "m \<noteq> 0"
  proof
    assume "m = 0"
    then have "bits_needed m = 0" by (simp add: bits_needed.simps)
    with \<open>\<not> bits_needed m \<le> k\<close> show False by simp
  qed
  from \<open>\<not> bits_needed m \<le> k\<close> have k: "k \<le> bits_needed m - 1" by simp
  from k have "(2::nat) ^ k \<le> 2 ^ (bits_needed m - 1)" by (rule power_increasing) simp
  with bits_needed_lower [OF nz] a show False by linarith
qed

lemma takeWhile_leading:
  fixes P :: "nat \<Rightarrow> bool"
  assumes "m \<le> L" and "\<forall>i. m \<le> i \<and> i < L \<longrightarrow> P i" and "m = 0 \<or> \<not> P (m - 1)"
  shows "length (takeWhile P (rev [0..<L])) = L - m"
proof -
  have split: "rev [0..<L] = rev [m..<L] @ rev [0..<m]"
    using assms(1) by (metis le0 rev_append le_iff_add upt_add_eq_append)
  have all: "\<forall>x\<in>set (rev [m..<L]). P x" using assms(2) by simp
  have "takeWhile P (rev [0..<L]) = rev [m..<L] @ takeWhile P (rev [0..<m])"
    unfolding split by (rule takeWhile_append2) (use assms(2) in auto)
  moreover have "takeWhile P (rev [0..<m]) = []"
  proof (cases m)
    case 0
    then show ?thesis by simp
  next
    case (Suc m')
    with assms(3) have "\<not> P m'" by simp
    with Suc show ?thesis by simp
  qed
  ultimately show ?thesis by simp
qed

lemma bit_above_bits_needed:
  assumes "bits_needed m \<le> i"
  shows "\<not> bit m i"
proof -
  have "m < 2 ^ bits_needed m" by (rule bits_needed_upper)
  also have "(2::nat) ^ bits_needed m \<le> 2 ^ i" using assms by (rule power_increasing) simp
  finally have "m div 2 ^ i = 0" by simp
  then show ?thesis by (simp add: bit_iff_odd)
qed

lemma bit_top_bits_needed:
  assumes "m \<noteq> 0"
  shows "bit m (bits_needed m - 1)"
proof -
  from assms have nz: "bits_needed m \<noteq> 0" by (subst bits_needed.simps) simp
  have lo: "2 ^ (bits_needed m - 1) \<le> m" using assms by (rule bits_needed_lower)
  have "m < 2 ^ bits_needed m" by (rule bits_needed_upper)
  also have "(2::nat) ^ bits_needed m = 2 * 2 ^ (bits_needed m - 1)"
    using nz by (cases "bits_needed m") simp_all
  finally have hi: "m < 2 * 2 ^ (bits_needed m - 1)" .
  have "m div 2 ^ (bits_needed m - 1) = 1"
  proof (rule Euclidean_Rings.div_nat_eqI)
    show "2 ^ (bits_needed m - 1) * 1 \<le> m" using lo by simp
    show "m < 2 ^ (bits_needed m - 1) * Suc 1" using hi by simp
  qed
  then show ?thesis by (simp add: bit_iff_odd)
qed

lemma ctlz_count:
  fixes w :: "'a::len word"
  shows "length (takeWhile (\<lambda>i. \<not> bit w i) (rev [0..<LENGTH('a)])) = LENGTH('a) - bits_needed (unat w)"
proof (rule takeWhile_leading)
  show "bits_needed (unat w) \<le> LENGTH('a)"
    by (rule bits_needed_le) (rule unsigned_less)
  show "\<forall>i. bits_needed (unat w) \<le> i \<and> i < LENGTH('a) \<longrightarrow> \<not> bit w i"
    using bit_above_bits_needed [of "unat w"] by (simp add: bit_unsigned_iff)
  show "bits_needed (unat w) = 0 \<or> \<not> \<not> bit w (bits_needed (unat w) - 1)"
  proof (cases "unat w = 0")
    case True
    then show ?thesis by (simp add: bits_needed.simps)
  next
    case False
    from bit_top_bits_needed [OF this] show ?thesis by (simp add: bit_unsigned_iff)
  qed
qed

subsection \<open>The range of \<open>get_next_int\<close>\<close>

lemma drop_bit_word_bound:
  fixes y :: "32 word"
  assumes "k \<le> 32"
  shows "unat (drop_bit (32 - k) y) < 2 ^ k"
proof -
  have "unat (drop_bit (32 - k) y) = unat y div 2 ^ (32 - k)"
    by (metis drop_bit_eq_div unat_drop_bit_eq)
  moreover have "unat y < 2 ^ 32"
    using unsigned_less [of y] by simp
  moreover have "(2::nat) ^ 32 = 2 ^ k * 2 ^ (32 - k)"
    using assms by (simp flip: power_add)
  ultimately show ?thesis by (simp add: less_mult_imp_div_less)
qed

lemma get_shifted_int_bound:
  fixes nbits :: "32 word"
  assumes "nbits \<le> 32"
  shows "unat (fst (get_shifted_int ext name nbits g)) < 2 ^ unat nbits"
proof -
  from assms have k: "unat nbits \<le> 32" by (simp add: word_le_nat_alt)
  from assms have "unat (32 - nbits) = 32 - unat nbits"
    by (simp add: unat_sub)
  then show ?thesis
    using drop_bit_word_bound [OF k]
    by (simp add: get_shifted_int_def Let_def split_beta)
qed

lemma get_next_int_bound:
  fixes nbits :: "32 word"
  assumes "nbits \<le> 64"
  shows "unat (fst (get_next_int ext name nbits g)) < 2 ^ unat nbits"
proof (cases "nbits \<le> 32")
  case True
  have "unat (ucast (fst (get_shifted_int ext name nbits g)) :: 64 word)
      \<le> unat (fst (get_shifted_int ext name nbits g))"
    by (simp add: unsigned_ucast_eq)
  also note get_shifted_int_bound [OF True, of ext name g]
  finally show ?thesis
    using True by (simp add: get_next_int_def split_beta)
next
  case False
  then have gt: "32 < nbits" by simp
  then have le: "32 \<le> nbits" by simp
  from assms have n64: "unat nbits \<le> 64" by (simp add: word_le_nat_alt)
  from gt have n32: "32 < unat nbits" by (simp add: word_less_nat_alt)
  have sub: "unat (nbits - 32) = unat nbits - 32" using le by (simp add: unat_sub)
  with n64 have "nbits - 32 \<le> 32" by (simp add: word_le_nat_alt)
  note hb = get_shifted_int_bound [OF this]
  let ?g1 = "snd (get_next_int32 ext name g)"
  let ?low = "fst (get_next_int32 ext name g)"
  let ?high = "fst (get_shifted_int ext name (nbits - 32) ?g1)"
  have lo: "unat ?low < 2 ^ 32" using unsigned_less [of ?low] by simp
  have hi: "unat ?high < 2 ^ (unat nbits - 32)" using hb [of ext name ?g1] sub by simp
  have "unat (ucast ?low + push_bit 32 (ucast ?high) :: 64 word)
      \<le> unat (ucast ?low :: 64 word) + unat (push_bit 32 (ucast ?high) :: 64 word)"
    by (simp add: unat_word_ariths)
  also have "unat (ucast ?low :: 64 word) \<le> unat ?low"
    by (simp add: unsigned_ucast_eq)
  also have "unat (push_bit 32 (ucast ?high) :: 64 word) \<le> push_bit 32 (unat (ucast ?high :: 64 word))"
    by (simp add: unsigned_push_bit_eq)
  also have "unat (ucast ?high :: 64 word) \<le> unat ?high"
    by (simp add: unsigned_ucast_eq)
  finally have "unat (ucast ?low + push_bit 32 (ucast ?high) :: 64 word) \<le> unat ?low + 2 ^ 32 * unat ?high"
    by (simp add: push_bit_eq_mult)
  moreover have "unat ?low + 2 ^ 32 * unat ?high < 2 ^ unat nbits"
  proof -
    from hi have "unat ?high + 1 \<le> 2 ^ (unat nbits - 32)" by simp
    then have "2 ^ 32 * (unat ?high + 1) \<le> 2 ^ 32 * 2 ^ (unat nbits - 32)"
      by (rule mult_le_mono2)
    also have "(2::nat) ^ 32 * 2 ^ (unat nbits - 32) = 2 ^ unat nbits"
    proof -
      have "(2::nat) ^ 32 * 2 ^ (unat nbits - 32) = 2 ^ (32 + (unat nbits - 32))"
        by (rule power_add [symmetric])
      also have "32 + (unat nbits - 32) = unat nbits" using n32 by simp
      finally show ?thesis .
    qed
    finally show ?thesis using lo by simp
  qed
  ultimately show ?thesis
    using False by (simp add: get_next_int_def split_beta)
qed

subsection \<open>Signed and unsigned readings\<close>

lemma sint_of_small:
  fixes w :: "'a::len word"
  assumes "unat w < 2 ^ (LENGTH('a) - 1)"
  shows "sint w = int (unat w)"
proof -
  from assms have "uint w < 2 ^ (LENGTH('a) - 1)"
    by (metis of_nat_less_iff of_nat_numeral of_nat_power of_nat_unat)
  moreover have "- (2 ^ (LENGTH('a) - 1)) \<le> uint w"
    by (rule order_trans [of _ 0]) simp_all
  ultimately have "signed_take_bit (LENGTH('a) - 1) (uint w) = uint w"
    by (intro signed_take_bit_int_eq_self)
  then show ?thesis by (simp add: sint_uint)
qed

lemma small_of_sint:
  fixes w :: "'a::len word"
  assumes "0 \<le> sint w"
  shows "unat w < 2 ^ (LENGTH('a) - 1)"
proof -
  from assms have "\<not> bit w (LENGTH('a) - Suc 0)" by (simp add: bit_last_iff)
  then have "\<not> bit (unat w) (LENGTH('a) - Suc 0)"
    by (simp add: bit_unsigned_iff)
  then have ev: "even (unat w div 2 ^ (LENGTH('a) - 1))"
    by (simp add: bit_iff_odd)
  have "unat w < 2 ^ LENGTH('a)" by (rule unsigned_less)
  also have "(2::nat) ^ LENGTH('a) = 2 * 2 ^ (LENGTH('a) - 1)"
    by (cases "LENGTH('a)") simp_all
  finally have "unat w div 2 ^ (LENGTH('a) - 1) < 2"
    by (simp add: less_mult_imp_div_less mult.commute)
  with ev have "unat w div 2 ^ (LENGTH('a) - 1) = 0"
    by (cases "unat w div 2 ^ (LENGTH('a) - 1)") auto
  then show ?thesis by (simp add: div_eq_0_iff)
qed

lemma randrange_nbits:
  fixes n :: "'a::len word"
  assumes pos: "word_sless 0 n" and len: "LENGTH('a) \<le> 64"
  defines "nbits \<equiv> (word_of_nat LENGTH('a) :: 32 word) - ucast (ctlz n)"
  shows "unat nbits = bits_needed (unat n)" and "1 \<le> bits_needed (unat n)"
    and "bits_needed (unat n) < LENGTH('a)"
proof -
  let ?L = "LENGTH('a)" and ?b = "bits_needed (unat n)"
  from pos have sp: "0 < sint n" by (simp add: word_sless_alt)
  then have small: "unat n < 2 ^ (?L - 1)" by (intro small_of_sint) simp
  have nz: "unat n \<noteq> 0"
  proof
    assume "unat n = 0"
    then have "n = 0" by (simp add: unat_eq_0)
    with sp show False by simp
  qed
  then show b1: "1 \<le> ?b" by (subst bits_needed.simps) simp
  from small have "?b \<le> ?L - 1" by (rule bits_needed_le)
  then show bL: "?b < ?L" by (simp add: less_eq_iff_succ_less)
  have c: "ctlz n = word_of_nat (?L - ?b)"
    by (simp add: ctlz_def ctlz_count)
  have "?L - ?b < 2 ^ ?L" 
    by (rule le_less_trans [of _ ?L]) simp_all
  then have u: "unat (ctlz n) = ?L - ?b"
    by (simp add: c unat_of_nat)
  have "(ucast (ctlz n) :: 32 word) = word_of_nat (unat (ctlz n))"
    by simp
  then have "(ucast (ctlz n) :: 32 word) = word_of_nat (?L - ?b)"
    unfolding u .
  then have "nbits = word_of_nat (?L - (?L - ?b))"
    unfolding nbits_def by simp
  also have "?L - (?L - ?b) = ?b" using bL by simp
  finally have "nbits = word_of_nat ?b" .
  moreover have "?b < 2 ^ 32" using bL len by simp
  ultimately show "unat nbits = ?b" by (simp add: unat_of_nat)
qed

lemma bits_needed_unique:
  assumes "m < 2 ^ b" and "b = 0 \<or> 2 ^ (b - 1) \<le> m"
  shows "bits_needed m = b"
proof (rule antisym)
  show "bits_needed m \<le> b" using assms(1) by (rule bits_needed_le)
  show "b \<le> bits_needed m"
  proof (cases "b = 0")
    case True
    then show ?thesis by simp
  next
    case False
    with assms(2) have "2 ^ (b - 1) \<le> m" by simp
    also have "m < 2 ^ bits_needed m" by (rule bits_needed_upper)
    finally have "b - 1 < bits_needed m" by (simp add: power_strict_increasing_iff)
    with False show ?thesis by simp
  qed
qed

lemma bits_needed_pred:
  assumes "m \<noteq> 0"
  shows "bits_needed m = bits_needed (m - 1) + (if \<exists>k. m = 2 ^ k then 1 else 0)"
proof (cases "\<exists>k. m = 2 ^ k")
  case True
  then obtain k where k: "m = 2 ^ k" ..
  have "bits_needed m = Suc k"
    by (rule bits_needed_unique) (simp_all add: k)
  moreover have "bits_needed (m - 1) = k"
  proof (rule bits_needed_unique)
    show "m - 1 < 2 ^ k" by (simp add: k)
    show "k = 0 \<or> 2 ^ (k - 1) \<le> m - 1"
    proof (cases k)
      case 0
      then show ?thesis by simp
    next
      case (Suc k')
      have "(1::nat) \<le> 2 ^ k'" by simp
      then show ?thesis by (simp add: k Suc)
    qed
  qed
  ultimately show ?thesis using True by simp
next
  case False
  let ?b = "bits_needed (m - 1)"
  have "bits_needed m = ?b"
  proof (rule bits_needed_unique)
    have "m - 1 < 2 ^ ?b" by (rule bits_needed_upper)
    then have "m \<le> 2 ^ ?b" by simp
    moreover from False have "m \<noteq> 2 ^ ?b" by blast
    ultimately show "m < 2 ^ ?b" by simp
    show "?b = 0 \<or> 2 ^ (?b - 1) \<le> m"
    proof (cases "m - 1 = 0")
      case True
      with assms have "m = 2 ^ 0" by simp
      with False show ?thesis by blast
    next
      case False
      then have "2 ^ (?b - 1) \<le> m - 1" by (rule bits_needed_lower)
      also have "m - 1 \<le> m" by simp
      finally show ?thesis by simp
    qed
  qed
  with False show ?thesis by simp
qed

lemma randrange_body_retry:
  fixes n :: "'a::len word" and nbits :: "32 word"
  shows "randrange_body ext state n nbits g =
    (if (\<lambda>g. word_sless (ucast (fst (get_next_int ext state nbits g)) :: 'a word) n) g
     then Inr ((\<lambda>g. (ucast (fst (get_next_int ext state nbits g)) :: 'a word, snd (get_next_int ext state nbits g))) g)
     else Inl ((\<lambda>g. snd (get_next_int ext state nbits g)) g))"
proof (cases "word_sle n (ucast (fst (get_next_int ext state nbits g)) :: 'a word)")
  case True
  then have "\<not> word_sless (ucast (fst (get_next_int ext state nbits g)) :: 'a word) n"
    by (simp add: signed.not_less)
  with True show ?thesis by (simp add: randrange_body_def Let_def split_beta)
next
  case False
  then have "word_sless (ucast (fst (get_next_int ext state nbits g)) :: 'a word) n"
    by (simp add: signed.not_le)
  with False show ?thesis by (simp add: randrange_body_def Let_def split_beta)
qed

lemma randrange_draw_nonneg:
  fixes n :: "'a::len word" and nbits :: "32 word"
  assumes nb: "unat nbits < LENGTH('a)" and len: "LENGTH('a) \<le> 64"
  shows "word_sle 0 (ucast (fst (get_next_int ext state nbits g)) :: 'a word)"
    and "unat (ucast (fst (get_next_int ext state nbits g)) :: 'a word) < 2 ^ unat nbits"
proof -
  let ?r64 = "fst (get_next_int ext state nbits g)"
  let ?r = "ucast ?r64 :: 'a word"
  from nb len have "unat nbits \<le> 64" by simp
  then have "nbits \<le> 64" by (simp add: word_le_nat_alt)
  then have b: "unat ?r64 < 2 ^ unat nbits" by (rule get_next_int_bound)
  have "unat ?r \<le> unat ?r64" by (simp add: unsigned_ucast_eq)
  with b show lt: "unat ?r < 2 ^ unat nbits" by simp
  also have "(2::nat) ^ unat nbits \<le> 2 ^ (LENGTH('a) - 1)"
    using nb by (intro power_increasing) simp_all
  finally have "sint ?r = int (unat ?r)" by (rule sint_of_small)
  then show "word_sle 0 ?r" by (simp add: word_sle_eq)
qed

subsection \<open>randrange\<close>

lemma priv_randrange_impl_unfold:
  fixes start stop step :: "'a::len word"
  defines "n0 \<equiv> stop - start"
  defines "n \<equiv> (if word_sless step 0 then sdiv_word (n0 + step + 1) step
                else if word_sless 1 step then sdiv_word (n0 + step - 1) step
                else n0)"
  defines "nbits \<equiv> (word_of_nat LENGTH('a) :: 32 word) - ucast (ctlz n)"
  shows "priv_randrange_impl ext start stop step state g =
    (if word_sle n 0 then Some (Inl RuntimeError, g)
     else (case while_loop (randrange_body ext state n nbits) g of
             None \<Rightarrow> None
           | Some (r, g') \<Rightarrow> Some (Inr (start + r * step), g')))"
proof -
  have "\<not> word_sless 1 step" if "word_sless step 0"
    using that by (simp add: word_sless_alt)
  then show ?thesis
    unfolding priv_randrange_impl_def n_def n0_def nbits_def Let_def by auto
qed

text \<open>
  C1 (amended). \<open>_randrange_impl\<close> computes \<open>n = stop - start\<close>, replaced by
  \<open>(n + step + 1) / step\<close> when \<open>step < 0\<close> and by \<open>(n + step - 1) / step\<close> when \<open>step > 1\<close>
  (machine arithmetic, truncating division; the one input where the division overflows is
  left out). It raises if and only if \<open>n \<le> 0\<close>, with the globals unchanged. Otherwise
  \<open>nbits = width - ctlz(n)\<close> is the bit length of \<open>n\<close> itself: that of \<open>n - 1\<close>, plus one when
  \<open>n\<close> is a power of two. Every draw \<open>r\<close> of \<open>get_next_int(nbits)\<close> is non-negative; when draw
  \<open>k\<close> is the first with \<open>r < n\<close> the result is \<open>start + r * step\<close> in the state after \<open>k + 1\<close>
  draws, and when no draw is below \<open>n\<close> the call does not return.
\<close>

theorem randrange_first_accepted:
  fixes start stop step :: "'a::len word" and ext state g
  defines "n0 \<equiv> stop - start"
  defines "n \<equiv> (if word_sless step 0 then sdiv_word (n0 + step + 1) step
                else if word_sless 1 step then sdiv_word (n0 + step - 1) step
                else n0)"
  defines "nbits \<equiv> (word_of_nat LENGTH('a) :: 32 word) - ucast (ctlz n)"
  defines "draw \<equiv> (\<lambda>j. ((\<lambda>g. snd (get_next_int ext state nbits g)) ^^ j) g)"
  defines "r \<equiv> (\<lambda>j. (ucast (fst (get_next_int ext state nbits (draw j))) :: 'a word))"
  assumes len: "LENGTH('a) \<le> 64"
    and defined: "\<not> (step = - 1 \<and> n0 = - (2 ^ (LENGTH('a) - 1)))"
  shows "(word_sle n 0 \<longrightarrow> priv_randrange_impl ext start stop step state g = Some (Inl RuntimeError, g))
    \<and> ((\<exists>e g'. priv_randrange_impl ext start stop step state g = Some (Inl e, g')) \<longleftrightarrow> word_sle n 0)
    \<and> (word_sless 0 n \<longrightarrow>
          unat nbits = bits_needed (unat n)
          \<and> unat nbits = bits_needed (unat n - 1) + (if \<exists>k. unat n = 2 ^ k then 1 else 0)
          \<and> (\<forall>j. word_sle 0 (r j))
          \<and> (\<forall>k. (\<forall>j<k. \<not> word_sless (r j) n) \<and> word_sless (r k) n \<longrightarrow>
                priv_randrange_impl ext start stop step state g
                  = Some (Inr (start + r k * step), draw (Suc k)))
          \<and> ((\<forall>j. \<not> word_sless (r j) n) \<longrightarrow>
                priv_randrange_impl ext start stop step state g = None))"
proof -
  note unfold = priv_randrange_impl_unfold [of ext start stop step state g, folded n0_def, folded n_def, folded nbits_def]
  have err: "word_sle n 0 \<longrightarrow> priv_randrange_impl ext start stop step state g = Some (Inl RuntimeError, g)"
    by (simp add: unfold)
  have iff: "(\<exists>e g'. priv_randrange_impl ext start stop step state g = Some (Inl e, g')) \<longleftrightarrow> word_sle n 0"
    by (auto simp: unfold split: option.splits)
  have pos: "unat nbits = bits_needed (unat n)
          \<and> unat nbits = bits_needed (unat n - 1) + (if \<exists>k. unat n = 2 ^ k then 1 else 0)
          \<and> (\<forall>j. word_sle 0 (r j))
          \<and> (\<forall>k. (\<forall>j<k. \<not> word_sless (r j) n) \<and> word_sless (r k) n \<longrightarrow>
                priv_randrange_impl ext start stop step state g
                  = Some (Inr (start + r k * step), draw (Suc k)))
          \<and> ((\<forall>j. \<not> word_sless (r j) n) \<longrightarrow>
                priv_randrange_impl ext start stop step state g = None)"
    if p: "word_sless 0 n"
  proof (intro conjI allI impI)
    from p have nle: "\<not> word_sle n 0" by (simp add: signed.not_le)
    show nb: "unat nbits = bits_needed (unat n)"
      unfolding nbits_def using p len by (rule randrange_nbits(1))
    have nz: "unat n \<noteq> 0"
    proof
      assume "unat n = 0"
      then have "bits_needed (unat n) = 0" by (simp add: bits_needed.simps)
      with randrange_nbits(2) [OF p len] show False by simp
    qed
    show "unat nbits = bits_needed (unat n - 1) + (if \<exists>k. unat n = 2 ^ k then 1 else 0)"
      unfolding nb using nz by (rule bits_needed_pred)
    have small: "unat nbits < LENGTH('a)"
      unfolding nb using p len by (rule randrange_nbits(3))
    show "word_sle 0 (r j)" for j
      unfolding r_def using small len by (rule randrange_draw_nonneg(1))
    {
      fix k
      assume k: "(\<forall>j<k. \<not> word_sless (r j) n) \<and> word_sless (r k) n"
      have "while_loop (randrange_body ext state n nbits) g = Some (r k, draw (Suc k))"
        using retry_loop_first [where body = "randrange_body ext state n nbits" and s = g and k = k,
            OF randrange_body_retry] k
        unfolding r_def draw_def by simp
      with nle show "priv_randrange_impl ext start stop step state g
          = Some (Inr (start + r k * step), draw (Suc k))"
        by (simp add: unfold)
    }
    assume "\<forall>j. \<not> word_sless (r j) n"
    then have "while_loop (randrange_body ext state n nbits) g = None"
      using retry_loop_never [where body = "randrange_body ext state n nbits" and s = g,
            OF randrange_body_retry]
      unfolding r_def draw_def by simp
    with nle show "priv_randrange_impl ext start stop step state g = None"
      by (simp add: unfold)
  qed
  from err iff pos show ?thesis by blast
qed

lemma ctlz_4: "ctlz (4 :: 32 word) = 29"
proof -
  have "bits_needed 4 = 3" by (simp add: bits_needed.simps)
  then show ?thesis unfolding ctlz_def ctlz_count by simp
qed

lemma sample_get_next_int_3:
  "get_next_int sample_externs Py (3 :: 32 word) sample_globals
    = (2, store Py (sample_state\<lparr>index := 1\<rparr>) sample_globals)"
proof -
  have "get_next_int32 sample_externs Py sample_globals
      = (0x40000000, store Py (sample_state\<lparr>index := 1\<rparr>) sample_globals)"
    by (subst sample_next_int32) (simp_all add: sample_globals_def sample_state_def)
  then show ?thesis
    by (simp add: get_next_int_def get_shifted_int_def del: store.simps)
qed

lemma sample_get_next_int_2:
  "get_next_int sample_externs Py (2 :: 32 word) sample_globals
    = (1, store Py (sample_state\<lparr>index := 1\<rparr>) sample_globals)"
proof -
  have "get_next_int32 sample_externs Py sample_globals
      = (0x40000000, store Py (sample_state\<lparr>index := 1\<rparr>) sample_globals)"
    by (subst sample_next_int32) (simp_all add: sample_globals_def sample_state_def)
  then show ?thesis
    by (simp add: get_next_int_def get_shifted_int_def del: store.simps)
qed

text \<open>
  C1 as stated fails for \<open>randrange(0, 4, 1)\<close>: \<open>n = 4\<close>, and \<open>32 - ctlz(4) = 3\<close> bits are drawn,
  while \<open>n - 1 = 3\<close> needs 2 bits. From the concrete state the call returns 2, the top three
  bits of the word; the top two bits would have been 1.
\<close>

theorem randrange_nbits_counterexample:
  "(word_of_nat 32 :: 32 word) - ucast (ctlz (4 - 0 :: 32 word)) = 3
   \<and> bits_needed (4 - 1) = 2
   \<and> priv_randrange_impl sample_externs (0 :: 32 word) 4 1 Py sample_globals
        = Some (Inr 2, store Py (sample_state\<lparr>index := 1\<rparr>) sample_globals)
   \<and> fst (get_next_int sample_externs Py (2 :: 32 word) sample_globals) = 1"
proof -
  have b: "bits_needed (4 - 1) = 2" by (simp add: bits_needed.simps)
  have nb: "(word_of_nat 32 :: 32 word) - ucast (ctlz (4 :: 32 word)) = 3"
    by (simp add: ctlz_4)
  have "randrange_body sample_externs Py (4 :: 32 word) 3 sample_globals
      = Inr (2, store Py (sample_state\<lparr>index := 1\<rparr>) sample_globals)"
    by (simp add: randrange_body_def sample_get_next_int_3 word_sle_eq del: store.simps)
  then have "while_loop (randrange_body sample_externs Py (4 :: 32 word) 3) sample_globals
      = Some (2, store Py (sample_state\<lparr>index := 1\<rparr>) sample_globals)"
    by (rule while_loop_Inr)
  then have "priv_randrange_impl sample_externs (0 :: 32 word) 4 1 Py sample_globals
        = Some (Inr 2, store Py (sample_state\<lparr>index := 1\<rparr>) sample_globals)"
    by (simp add: priv_randrange_impl_def Let_def word_sless_alt word_sle_eq ctlz_4 del: store.simps)
  with b nb show ?thesis by (simp add: sample_get_next_int_2 del: store.simps)
qed

theorem randrange_first_accepted_witness:
  "LENGTH(32) \<le> (64::nat)
   \<and> \<not> ((1 :: 32 word) = - 1 \<and> (4 - 0 :: 32 word) = - (2 ^ (LENGTH(32) - 1)))
   \<and> priv_randrange_impl sample_externs (0 :: 32 word) 4 1 Py sample_globals
        = Some (Inr 2, store Py (sample_state\<lparr>index := 1\<rparr>) sample_globals)
   \<and> priv_randrange_impl sample_externs (5 :: 32 word) 5 1 Py sample_globals
        = Some (Inl RuntimeError, sample_globals)"
proof -
  have len: "LENGTH(32) \<le> (64::nat)" by simp
  have d1: "\<not> ((1 :: 32 word) = - 1 \<and> (4 - 0 :: 32 word) = - (2 ^ (LENGTH(32) - 1)))" by simp
  have d2: "\<not> ((1 :: 32 word) = - 1 \<and> (5 - 5 :: 32 word) = - (2 ^ (LENGTH(32) - 1)))" by simp
  note t1 = randrange_first_accepted [where start = "0 :: 32 word" and stop = 4 and step = 1
      and ext = sample_externs and state = Py and g = sample_globals, OF len d1]
  note t2 = randrange_first_accepted [where start = "5 :: 32 word" and stop = 5 and step = 1
      and ext = sample_externs and state = Py and g = sample_globals, OF len d2]
  have e: "priv_randrange_impl sample_externs (5 :: 32 word) 5 1 Py sample_globals
        = Some (Inl RuntimeError, sample_globals)"
    using t2 [THEN conjunct1] by (simp add: word_sless_alt word_sle_eq)
  have "priv_randrange_impl sample_externs (0 :: 32 word) 4 1 Py sample_globals
        = Some (Inr 2, store Py (sample_state\<lparr>index := 1\<rparr>) sample_globals)"
    using t1 [THEN conjunct2, THEN conjunct2, rule_format, THEN conjunct2, THEN conjunct2, THEN conjunct2,
        THEN conjunct1, rule_format, of 0]
    by (simp add: word_sless_alt word_sle_eq ctlz_4 sample_get_next_int_3 del: store.simps)
  with len d1 e show ?thesis by blast
qed

subsection \<open>shuffle\<close>












subsection \<open>negative_binomial\<close>









text \<open>
  At \<open>p = 0\<close> the checks pass as well (\<open>p < 0.0\<close> is false) and the division
  \<open>(1 - p) / p\<close> has a zero divisor.
\<close>

lemma negative_binomial_p_zero:
  "negative_binomial_impl sample_externs 1 0 sample_globals = Some (Inl ZeroDivisionError, sample_globals)"
  by (simp add: negative_binomial_impl_def truediv_def word_sle_eq)

subsection \<open>Each call leaves the other stream alone\<close>














lemma frame_tI: "(\<And>st g. f (store name st g) = apsnd (store name st) (f g)) \<Longrightarrow> frame_t name f"
  by (simp add: frame_t_def)



















































subsection \<open>Interleaved sequences of calls\<close>















end
